theory Spec2Isabelle
  imports Main "HOL-Library.Sublist"
begin

section \<open>Strings as Python sees them\<close>

text \<open>
  The program is \<^verbatim>\<open>src/yts.py\<close>. A Python \<^verbatim>\<open>str\<close> is a sequence of code points and
  \<^verbatim>\<open>len\<close> counts code points. A \<^typ>\<open>string\<close> is a list of 8-bit characters; each
  \<^typ>\<open>char\<close> stands for the code point of the same number, so the model covers the
  texts whose code points lie in U+0000..U+00FF. The three character classes that
  \<^verbatim>\<open>clean_vtt\<close> relies on are the tables of CPython restricted to that range.
\<close>

definition isspace :: "char \<Rightarrow> bool" where
  \<comment> \<open>\<^verbatim>\<open>str.isspace\<close> on one character: TAB LF VT FF CR, FS GS RS US, space, NEL, NBSP\<close>
  "isspace c \<longleftrightarrow> c \<in> {CHR 0x09, CHR 0x0A, CHR 0x0B, CHR 0x0C, CHR 0x0D,
      CHR 0x1C, CHR 0x1D, CHR 0x1E, CHR 0x1F, CHR 0x20, CHR 0x85, CHR 0xA0}"

definition is_linebreak :: "char \<Rightarrow> bool" where
  \<comment> \<open>the line boundaries of \<^verbatim>\<open>str.splitlines\<close>: LF VT FF CR, FS GS RS, NEL\<close>
  "is_linebreak c \<longleftrightarrow> c \<in> {CHR 0x0A, CHR 0x0B, CHR 0x0C, CHR 0x0D,
      CHR 0x1C, CHR 0x1D, CHR 0x1E, CHR 0x85}"

definition isdigit_char :: "char \<Rightarrow> bool" where
  \<comment> \<open>\<^verbatim>\<open>str.isdigit\<close> on one character: 0..9 and the superscripts two, three, one\<close>
  "isdigit_char c \<longleftrightarrow> c \<in> set ''0123456789'' \<or> c \<in> {CHR 0xB2, CHR 0xB3, CHR 0xB9}"

definition isdigit :: "string \<Rightarrow> bool" where
  \<comment> \<open>\<^verbatim>\<open>s.isdigit()\<close>: at least one character, and all of them digits\<close>
  "isdigit s \<longleftrightarrow> s \<noteq> [] \<and> list_all isdigit_char s"

definition strip :: "string \<Rightarrow> string" where
  \<comment> \<open>\<^verbatim>\<open>s.strip()\<close>: leading and trailing whitespace removed\<close>
  "strip s = rev (dropWhile isspace (rev (dropWhile isspace s)))"

definition startswith :: "string \<Rightarrow> string \<Rightarrow> bool" where
  \<comment> \<open>\<^verbatim>\<open>s.startswith(p)\<close>\<close>
  "startswith s p \<longleftrightarrow> take (length p) s = p"

fun contains :: "string \<Rightarrow> string \<Rightarrow> bool" where
  \<comment> \<open>\<^verbatim>\<open>sub in s\<close>: \<open>sub\<close> occurs in \<open>s\<close> as a contiguous run\<close>
  "contains [] sub = (sub = [])"
| "contains (c # cs) sub = (startswith (c # cs) sub \<or> contains cs sub)"

fun splitlines_from :: "string \<Rightarrow> string \<Rightarrow> string list" where
  \<comment> \<open>the scan of \<^verbatim>\<open>str.splitlines\<close>; \<open>cur\<close> is the line read so far. A line ends at
      a line boundary, CR LF counts as one boundary, and no empty line is reported
      after the last boundary.\<close>
  "splitlines_from cur [] = (if cur = [] then [] else [cur])"
| "splitlines_from cur [c] =
     (if is_linebreak c then [cur] else splitlines_from (cur @ [c]) [])"
| "splitlines_from cur (c # d # ds) =
     (if is_linebreak c then
        cur # (if c = CHR 0x0D \<and> d = CHR 0x0A then splitlines_from [] ds
               else splitlines_from [] (d # ds))
      else splitlines_from (cur @ [c]) (d # ds))"

definition splitlines :: "string \<Rightarrow> string list" where
  "splitlines s = splitlines_from [] s"

function strip_tags :: "string \<Rightarrow> string" where
  \<comment> \<open>\<^verbatim>\<open>re.sub(r"<[^>]+>", "", s)\<close>: scanning from the left, a \<open><\<close> followed by one
      or more characters other than \<open>>\<close> and then a \<open>>\<close> is removed with all of them;
      any other character is copied.\<close>
  "strip_tags [] = []"
| "strip_tags (c # cs) =
     (if c = CHR ''<'' \<and> takeWhile (\<lambda>x. x \<noteq> CHR ''>'') cs \<noteq> []
         \<and> dropWhile (\<lambda>x. x \<noteq> CHR ''>'') cs \<noteq> []
      then strip_tags (tl (dropWhile (\<lambda>x. x \<noteq> CHR ''>'') cs))
      else c # strip_tags cs)"
  by pat_completeness auto
termination
proof (relation "measure length")
  show "wf (measure length)" by simp
next
  fix c :: char and cs :: string
  assume "c = CHR ''<'' \<and> takeWhile (\<lambda>x. x \<noteq> CHR ''>'') cs \<noteq> []
         \<and> dropWhile (\<lambda>x. x \<noteq> CHR ''>'') cs \<noteq> []"
  have "length (tl (dropWhile (\<lambda>x. x \<noteq> CHR ''>'') cs)) \<le> length cs"
    using length_dropWhile_le [of "\<lambda>x. x \<noteq> CHR ''>''" cs] by simp
  then show "(tl (dropWhile (\<lambda>x. x \<noteq> CHR ''>'') cs), c # cs) \<in> measure length"
    by simp
next
  fix c :: char and cs :: string
  show "(cs, c # cs) \<in> measure length" by simp
qed

fun join :: "string \<Rightarrow> string list \<Rightarrow> string" where
  \<comment> \<open>\<^verbatim>\<open>sep.join(xs)\<close>\<close>
  "join sep [] = []"
| "join sep [x] = x"
| "join sep (x # y # ys) = x @ sep @ join sep (y # ys)"

section \<open>The cleaning transform\<close>

definition skip_line :: "string \<Rightarrow> bool" where
  \<comment> \<open>the condition of the \<^verbatim>\<open>continue\<close> in \<^verbatim>\<open>clean_vtt\<close>, on the trimmed line\<close>
  "skip_line line \<longleftrightarrow>
     line = []
     \<or> startswith line ''WEBVTT''
     \<or> startswith line ''Kind:''
     \<or> startswith line ''Language:''
     \<or> contains line ''-->''
     \<or> startswith line ''NOTE''
     \<or> (isdigit (take 1 line) \<and> isdigit (strip line))"

fun clean_loop :: "string list \<Rightarrow> string set \<Rightarrow> string list \<Rightarrow> string list" where
  \<comment> \<open>the \<^verbatim>\<open>for\<close> loop of \<^verbatim>\<open>clean_vtt\<close> over the remaining lines, with the two
      variables it updates, \<open>seen\<close> and \<open>cleaned\<close>\<close>
  "clean_loop [] seen cleaned = cleaned"
| "clean_loop (l # ls) seen cleaned =
     (let line = strip l in
      if skip_line line then clean_loop ls seen cleaned
      else
        let line = strip_tags line;
            line = strip line
        in if line \<noteq> [] \<and> line \<notin> seen
           then clean_loop ls (insert line seen) (cleaned @ [line])
           else clean_loop ls seen cleaned)"

definition kept_lines :: "string \<Rightarrow> string list" where
  \<comment> \<open>the list \<open>cleaned\<close> when the loop of \<^verbatim>\<open>clean_vtt\<close> ends\<close>
  "kept_lines vtt_text = clean_loop (splitlines vtt_text) {} []"

definition clean_vtt :: "string \<Rightarrow> string" where
  "clean_vtt vtt_text = join '' '' (kept_lines vtt_text)"

subsection \<open>What the loop is compared with\<close>

definition candidates :: "string \<Rightarrow> string list" where
  \<comment> \<open>the lines that reach the \<^verbatim>\<open>not in seen\<close> test with a non-empty text, in the
      order of the document: trimmed, not skipped, tags removed, trimmed again\<close>
  "candidates vtt_text =
     filter (\<lambda>line. line \<noteq> [])
       (map (\<lambda>line. strip (strip_tags line))
         (filter (\<lambda>line. \<not> skip_line line) (map strip (splitlines vtt_text))))"

definition first_occurrences :: "'a list \<Rightarrow> 'a list" where
  \<comment> \<open>the spec's rule of step 5, read on its own: an entry stays when it differs from
      every entry before it, wherever that one stands\<close>
  "first_occurrences xs =
     map (\<lambda>i. xs ! i) (filter (\<lambda>i. xs ! i \<notin> set (take i xs)) [0..<length xs])"

definition first_index :: "'a list \<Rightarrow> 'a \<Rightarrow> nat" where
  \<comment> \<open>the position of the first entry equal to \<open>x\<close> (the length when there is none)\<close>
  "first_index xs x = length (takeWhile (\<lambda>y. y \<noteq> x) xs)"

definition trimmed_line :: "string \<Rightarrow> bool" where
  \<comment> \<open>a non-empty text without line boundary that \<^verbatim>\<open>strip\<close> leaves as it is\<close>
  "trimmed_line s \<longleftrightarrow>
     s \<noteq> [] \<and> \<not> isspace (hd s) \<and> \<not> isspace (last s)
     \<and> list_all (\<lambda>c. \<not> is_linebreak c) s"

subsection \<open>The transform on run-time values\<close>

text \<open>
  Python checks no type before it runs: \<^verbatim>\<open>clean_vtt\<close> can be called with any
  object, and each of its operations raises when the object it meets does not support
  it. The definitions below read the same function on run-time values, a string or
  \<^verbatim>\<open>None\<close>, with the exception each operation raises as the value \<open>Inl\<close>. An
  \<^verbatim>\<open>or\<close> and an \<^verbatim>\<open>and\<close> stop at the first operand that decides or raises.
\<close>

datatype pyval = Str string | NoneVal

datatype exception = AttributeError | TypeError

definition py_splitlines :: "pyval \<Rightarrow> exception + pyval list" where
  \<comment> \<open>\<^verbatim>\<open>v.splitlines()\<close>\<close>
  "py_splitlines v = (case v of Str s \<Rightarrow> Inr (map Str (splitlines s)) | NoneVal \<Rightarrow> Inl AttributeError)"

definition py_strip :: "pyval \<Rightarrow> exception + pyval" where
  \<comment> \<open>\<^verbatim>\<open>v.strip()\<close>\<close>
  "py_strip v = (case v of Str s \<Rightarrow> Inr (Str (strip s)) | NoneVal \<Rightarrow> Inl AttributeError)"

definition py_truth :: "pyval \<Rightarrow> bool" where
  \<comment> \<open>the truth value of \<open>v\<close> in a condition: the empty string and \<^verbatim>\<open>None\<close> are false\<close>
  "py_truth v = (case v of Str s \<Rightarrow> s \<noteq> [] | NoneVal \<Rightarrow> False)"

definition py_startswith :: "pyval \<Rightarrow> string \<Rightarrow> exception + bool" where
  \<comment> \<open>\<^verbatim>\<open>v.startswith(p)\<close>\<close>
  "py_startswith v p = (case v of Str s \<Rightarrow> Inr (startswith s p) | NoneVal \<Rightarrow> Inl AttributeError)"

definition py_in :: "string \<Rightarrow> pyval \<Rightarrow> exception + bool" where
  \<comment> \<open>\<^verbatim>\<open>sub in v\<close>; \<^verbatim>\<open>None\<close> is not iterable\<close>
  "py_in sub v = (case v of Str s \<Rightarrow> Inr (contains s sub) | NoneVal \<Rightarrow> Inl TypeError)"

definition py_first :: "pyval \<Rightarrow> exception + pyval" where
  \<comment> \<open>\<^verbatim>\<open>v[0:1]\<close>: a slice never leaves the string; \<^verbatim>\<open>None\<close> is not subscriptable\<close>
  "py_first v = (case v of Str s \<Rightarrow> Inr (Str (take 1 s)) | NoneVal \<Rightarrow> Inl TypeError)"

definition py_isdigit :: "pyval \<Rightarrow> exception + bool" where
  \<comment> \<open>\<^verbatim>\<open>v.isdigit()\<close>\<close>
  "py_isdigit v = (case v of Str s \<Rightarrow> Inr (isdigit s) | NoneVal \<Rightarrow> Inl AttributeError)"

definition re_sub_tags :: "pyval \<Rightarrow> exception + pyval" where
  \<comment> \<open>\<^verbatim>\<open>re.sub(r"<[^>]+>", "", v)\<close>; anything but a string is a \<^verbatim>\<open>TypeError\<close>\<close>
  "re_sub_tags v = (case v of Str s \<Rightarrow> Inr (Str (strip_tags s)) | NoneVal \<Rightarrow> Inl TypeError)"

definition py_join :: "string \<Rightarrow> pyval list \<Rightarrow> exception + pyval" where
  \<comment> \<open>\<^verbatim>\<open>sep.join(xs)\<close>; an item that is no string is a \<^verbatim>\<open>TypeError\<close>\<close>
  "py_join sep xs =
     (if list_all (\<lambda>v. v \<noteq> NoneVal) xs
      then Inr (Str (join sep (map (\<lambda>v. case v of Str s \<Rightarrow> s | NoneVal \<Rightarrow> []) xs)))
      else Inl TypeError)"

definition py_or :: "exception + bool \<Rightarrow> exception + bool \<Rightarrow> exception + bool" where
  \<comment> \<open>\<^verbatim>\<open>a or b\<close>: \<open>b\<close> is looked at only when \<open>a\<close> is false\<close>
  "py_or a b = (case a of Inl e \<Rightarrow> Inl e | Inr t \<Rightarrow> (if t then Inr True else b))"

definition py_and :: "exception + bool \<Rightarrow> exception + bool \<Rightarrow> exception + bool" where
  \<comment> \<open>\<^verbatim>\<open>a and b\<close>: \<open>b\<close> is looked at only when \<open>a\<close> is true\<close>
  "py_and a b = (case a of Inl e \<Rightarrow> Inl e | Inr t \<Rightarrow> (if t then b else Inr False))"

definition py_skip_line :: "pyval \<Rightarrow> exception + bool" where
  \<comment> \<open>the condition of the \<^verbatim>\<open>continue\<close>, operand by operand\<close>
  "py_skip_line line =
     py_or (Inr (\<not> py_truth line))
      (py_or (py_startswith line ''WEBVTT'')
        (py_or (py_startswith line ''Kind:'')
          (py_or (py_startswith line ''Language:'')
            (py_or (py_in ''-->'' line)
              (py_or (py_startswith line ''NOTE'')
                (py_and
                  (case py_first line of Inl e \<Rightarrow> Inl e | Inr v \<Rightarrow> py_isdigit v)
                  (case py_strip line of Inl e \<Rightarrow> Inl e | Inr v \<Rightarrow> py_isdigit v)))))))"

fun py_clean_loop :: "pyval list \<Rightarrow> pyval set \<Rightarrow> pyval list \<Rightarrow> exception + pyval list" where
  \<comment> \<open>the \<^verbatim>\<open>for\<close> loop; an exception ends it\<close>
  "py_clean_loop [] seen cleaned = Inr cleaned"
| "py_clean_loop (l # ls) seen cleaned =
     (case py_strip l of
        Inl e \<Rightarrow> Inl e
      | Inr line \<Rightarrow>
         (case py_skip_line line of
            Inl e \<Rightarrow> Inl e
          | Inr skip \<Rightarrow>
             (if skip then py_clean_loop ls seen cleaned
              else
               (case re_sub_tags line of
                  Inl e \<Rightarrow> Inl e
                | Inr line \<Rightarrow>
                   (case py_strip line of
                      Inl e \<Rightarrow> Inl e
                    | Inr line \<Rightarrow>
                       (if py_truth line \<and> line \<notin> seen
                        then py_clean_loop ls (insert line seen) (cleaned @ [line])
                        else py_clean_loop ls seen cleaned))))))"

definition py_clean_vtt :: "pyval \<Rightarrow> exception + pyval" where
  \<comment> \<open>\<^verbatim>\<open>clean_vtt(v)\<close>: the value returned, or the exception that leaves the function\<close>
  "py_clean_vtt vtt_text =
     (case py_splitlines vtt_text of
        Inl e \<Rightarrow> Inl e
      | Inr lines \<Rightarrow>
         (case py_clean_loop lines {} [] of
            Inl e \<Rightarrow> Inl e
          | Inr cleaned \<Rightarrow> py_join '' '' cleaned))"

section \<open>The pipeline around it\<close>

text \<open>
  Everything outside the process is a parameter: what the video service answers for a
  URL, which subtitle files the download leaves behind, and what the text-generation
  process returns for an argument vector. \<open>Inl\<close> holds the message of a
  \<^verbatim>\<open>DownloadError\<close>. Each function takes the console written so far and returns it
  extended; \<^verbatim>\<open>sys.exit(n)\<close> is the value \<open>Inl (SystemExit n)\<close>.

  The model starts after \<^verbatim>\<open>argparse\<close> has accepted the command line, and takes
  the subtitle file as decoded text and the generation process as one that starts and
  returns: a rejected command line, a file that is not UTF-8 and an executable that
  is missing end the program elsewhere and are no part of it.
\<close>

datatype error = SystemExit int

record proc_result =
  returncode :: int
  stdout :: string
  stderr :: string

record world =
  extract_info :: "string \<Rightarrow> string + (string \<rightharpoonup> string)"
  download :: "string \<Rightarrow> string + string list"
  subprocess_run :: "string list \<Rightarrow> proc_result"

record console =
  err_lines :: "string list"
  out_lines :: "string list"
  commands :: "string list list"

definition print_err :: "string \<Rightarrow> console \<Rightarrow> console" where
  \<comment> \<open>\<^verbatim>\<open>print(msg, file=sys.stderr)\<close>\<close>
  "print_err msg io = io\<lparr>err_lines := err_lines io @ [msg]\<rparr>"

definition print_out :: "string \<Rightarrow> console \<Rightarrow> console" where
  \<comment> \<open>\<^verbatim>\<open>print(msg)\<close>\<close>
  "print_out msg io = io\<lparr>out_lines := out_lines io @ [msg]\<rparr>"

definition DEFAULT_MODEL :: string where
  "DEFAULT_MODEL = ''claude-haiku-4-5-20251001''"

definition em_dash :: string where
  \<comment> \<open>U+2014 in two fixed texts of the program. It lies outside the 8-bit range, so
      it is written as the three bytes of its UTF-8 form; no property below reads it.\<close>
  "em_dash = [CHR 0xE2, CHR 0x80, CHR 0x94]"

definition get_video_info ::
  "world \<Rightarrow> string \<Rightarrow> console \<Rightarrow> (error + (string \<rightharpoonup> string)) \<times> console" where
  "get_video_info w url io =
     (case extract_info w url of
        Inr info \<Rightarrow> (Inr info, io)
      | Inl e \<Rightarrow> (Inl (SystemExit 1), print_err (''Error fetching video info: '' @ e) io))"

definition extract_subtitles ::
  "world \<Rightarrow> string \<Rightarrow> console \<Rightarrow> (error + string) \<times> console" where
  \<comment> \<open>\<open>download w url\<close> is the content of each \<^verbatim>\<open>*.vtt\<close> file of the temporary
      directory after the download, in the order of the \<^verbatim>\<open>glob\<close>\<close>
  "extract_subtitles w url io =
     (case download w url of
        Inl e \<Rightarrow> (Inl (SystemExit 1), print_err (''Error downloading subtitles: '' @ e) io)
      | Inr vtt_files \<Rightarrow>
          (case vtt_files of
             [] \<Rightarrow> (Inl (SystemExit 1),
                    print_err ''No English subtitles found for this video.'' io)
           | raw # _ \<Rightarrow> (Inr (clean_vtt raw), io)))"

definition prompt :: "string \<Rightarrow> string \<Rightarrow> string" where
  \<comment> \<open>the f-string of \<^verbatim>\<open>summarize_with_claude\<close>\<close>
  "prompt title subtitles =
     ''You are summarizing a YouTube video.\<newline>\<newline>Video title: '' @ [CHR 0x22] @ title @ [CHR 0x22]
     @ ''\<newline>\<newline>Below are the video'' @ [CHR 0x27]
     @ ''s subtitles/transcript. Based on these subtitles:\<newline>\<newline>''
     @ ''1. First, write a short paragraph that directly answers or addresses the video''
     @ [CHR 0x27] @ ''s title. Many YouTube titles are clickbait '' @ em_dash
     @ '' cut through it and give the real answer upfront.\<newline>\<newline>''
     @ ''2. Then, list the key points and takeaways from the video as bullet points.\<newline>\<newline>''
     @ ''Be concise and factual. Only include information actually present in the subtitles.''
     @ ''\<newline>\<newline>--- SUBTITLES ---\<newline>'' @ subtitles @ ''\<newline>--- END SUBTITLES ---''"

definition claude_argv :: "string \<Rightarrow> string \<Rightarrow> string \<Rightarrow> string list" where
  \<comment> \<open>the argument vector given to \<^verbatim>\<open>subprocess.run\<close>\<close>
  "claude_argv title subtitles model =
     [''claude'', ''-p'', prompt title subtitles, ''--model'', model]"

definition summarize_with_claude ::
  "world \<Rightarrow> string \<Rightarrow> string \<Rightarrow> string \<Rightarrow> console \<Rightarrow> (error + string) \<times> console" where
  "summarize_with_claude w title subtitles model io =
     (let argv = claude_argv title subtitles model;
          result = subprocess_run w argv;
          io = io\<lparr>commands := commands io @ [argv]\<rparr>
      in if returncode result \<noteq> 0
         then (Inl (SystemExit 1), print_err (''Error calling Claude: '' @ stderr result) io)
         else (Inr (strip (stdout result)), io))"

definition too_short_msg :: string where
  "too_short_msg = ''Subtitles too short or empty '' @ em_dash
     @ '' video may not have usable captions.''"

definition truncated_msg :: string where
  \<comment> \<open>\<^verbatim>\<open>f"Transcript truncated to {max_chars} characters."\<close> with \<^verbatim>\<open>max_chars = 100_000\<close>\<close>
  "truncated_msg = ''Transcript truncated to 100000 characters.''"

definition main :: "world \<Rightarrow> string \<Rightarrow> string option \<Rightarrow> int \<times> console" where
  \<comment> \<open>\<^verbatim>\<open>main\<close> after the arguments are parsed: \<open>url\<close> is the positional argument,
      \<open>model_arg\<close> the value of \<^verbatim>\<open>--model\<close> when given. The result is the exit
      status of the process and the console.\<close>
  "main w url model_arg =
     (let model = (case model_arg of None \<Rightarrow> DEFAULT_MODEL | Some m \<Rightarrow> m);
          io = print_err ''Fetching video info...''
                 \<lparr>err_lines = [], out_lines = [], commands = []\<rparr>
      in case get_video_info w url io of
           (Inl (SystemExit n), io) \<Rightarrow> (n, io)
         | (Inr info, io) \<Rightarrow>
            (let title = (case info ''title'' of Some t \<Rightarrow> t | None \<Rightarrow> ''Unknown Title'');
                 io = print_err (''Title: '' @ title) io;
                 io = print_err ''Extracting subtitles...'' io
             in case extract_subtitles w url io of
                  (Inl (SystemExit n), io) \<Rightarrow> (n, io)
                | (Inr subtitles, io) \<Rightarrow>
                   (if length subtitles < 50 then (1, print_err too_short_msg io)
                    else
                     (let max_chars = 100000;
                          (subtitles, io) =
                            (if length subtitles > max_chars
                             then (take max_chars subtitles, print_err truncated_msg io)
                             else (subtitles, io));
                          io = print_err (''Summarizing with Claude ('' @ model @ '')...'') io
                      in case summarize_with_claude w title subtitles model io of
                           (Inl (SystemExit n), io) \<Rightarrow> (n, io)
                         | (Inr summary, io) \<Rightarrow> (0, print_out summary (print_out [] io))))))"

subsection \<open>Concrete runs\<close>

definition demo_world :: "(string \<rightharpoonup> string) \<Rightarrow> string \<Rightarrow> proc_result \<Rightarrow> world" where
  \<comment> \<open>a service that answers every URL with the metadata \<open>info\<close> and one subtitle
      file \<open>raw\<close>, and a generation process that always returns \<open>r\<close>\<close>
  "demo_world info raw r =
     \<lparr>extract_info = (\<lambda>url. Inr info), download = (\<lambda>url. Inr [raw]),
      subprocess_run = (\<lambda>argv. r)\<rparr>"

definition text49 :: string where
  "text49 = ''The quick brown fox jumps over the lazy dog today''"

definition text50 :: string where
  "text50 = ''The quick brown fox jumps over the lazy dog today.''"

definition rate_limited :: proc_result where
  "rate_limited = \<lparr>returncode = 1, stdout = [], stderr = ''rate limited''\<rparr>"

definition answered :: proc_result where
  "answered = \<lparr>returncode = 0, stdout = '' A summary.\<newline>'', stderr = []\<rparr>"

definition scenario_doc :: string where
  \<comment> \<open>the two-cue document of the spec's first scenario\<close>
  "scenario_doc = ''WEBVTT\<newline>\<newline>00:00:01.000 --> 00:00:02.000\<newline>Hello <c>world</c>\<newline>\<newline>00:00:02.000 --> 00:00:03.000\<newline>Hello <c>world</c>\<newline>''"

definition header_doc :: string where
  \<comment> \<open>the header-only document of the spec's second scenario\<close>
  "header_doc = ''WEBVTT\<newline>Kind: captions\<newline>Language: en\<newline>''"

definition numbered_doc :: string where
  \<comment> \<open>two numbered cues without any tag\<close>
  "numbered_doc = ''WEBVTT\<newline>\<newline>1\<newline>00:00:01.000 --> 00:00:02.000\<newline>Hello world\<newline>\<newline>2\<newline>00:00:02.000 --> 00:00:04.000\<newline>Hello world\<newline>again\<newline>''"

definition repeating_doc :: string where
  \<comment> \<open>a line that comes back after another one, in another case, and inside a tag\<close>
  "repeating_doc = ''one\<newline>two\<newline>one\<newline>One\<newline><i>two</i>\<newline>three''"

definition long_text :: string where
  "long_text = replicate 100001 CHR ''a''"

section \<open>Facts about the string operations and the loop\<close>

subsection \<open>Prefixes, substrings and trimming\<close>

lemma startswith_prefix: "startswith s p \<longleftrightarrow> prefix p s"
proof
  assume "startswith s p"
  then have "s = p @ drop (length p) s"
    unfolding startswith_def by (metis append_take_drop_id)
  then show "prefix p s" by (metis prefixI)
next
  assume "prefix p s"
  then obtain zs where "s = p @ zs" by (auto simp: prefix_def)
  then show "startswith s p" by (simp add: startswith_def)
qed

lemma contains_sublist: "contains s sub \<longleftrightarrow> sublist sub s"
  by (induction s) (simp_all add: startswith_prefix sublist_Cons_right)

lemma strip_prefix_of_tail: "\<exists>ws. dropWhile isspace s = strip s @ ws"
proof -
  have "rev (dropWhile isspace s)
      = takeWhile isspace (rev (dropWhile isspace s)) @ dropWhile isspace (rev (dropWhile isspace s))"
    by simp
  then have "dropWhile isspace s = strip s @ rev (takeWhile isspace (rev (dropWhile isspace s)))"
    unfolding strip_def by (metis rev_append rev_rev_ident)
  then show ?thesis by blast
qed

lemma set_strip: "set (strip s) \<subseteq> set s"
proof -
  have "set (strip s) \<subseteq> set (dropWhile isspace s)"
    unfolding strip_def using set_dropWhileD by fastforce
  also have "\<dots> \<subseteq> set s" using set_dropWhileD by fastforce
  finally show ?thesis .
qed

lemma strip_ends:
  assumes "strip s \<noteq> []"
  shows "\<not> isspace (hd (strip s))" and "\<not> isspace (last (strip s))"
proof -
  obtain ws where ws: "dropWhile isspace s = strip s @ ws"
    using strip_prefix_of_tail by blast
  with assms have "hd (strip s) = hd (dropWhile isspace s)" by simp
  moreover from ws assms have "dropWhile isspace s \<noteq> []" by auto
  ultimately show "\<not> isspace (hd (strip s))" by (metis hd_dropWhile)
  from assms have ne: "dropWhile isspace (rev (dropWhile isspace s)) \<noteq> []"
    by (simp add: strip_def)
  have "last (strip s) = hd (dropWhile isspace (rev (dropWhile isspace s)))"
    using ne by (simp add: strip_def last_rev)
  with ne show "\<not> isspace (last (strip s))" by (metis hd_dropWhile)
qed

lemma strip_fixed:
  assumes "s = [] \<or> (\<not> isspace (hd s) \<and> \<not> isspace (last s))"
  shows "strip s = s"
proof (cases "s = []")
  case True
  then show ?thesis by (simp add: strip_def)
next
  case False
  with assms have h: "\<not> isspace (hd s)" and l: "\<not> isspace (last s)" by auto
  from False h have "dropWhile isspace s = s" by (cases s) auto
  moreover from False l have "dropWhile isspace (rev s) = rev s"
    by (cases "rev s") (auto simp: last_rev hd_rev)
  ultimately show ?thesis by (simp add: strip_def)
qed

lemma strip_strip: "strip (strip s) = strip s"
  using strip_ends [of s] strip_fixed [of "strip s"] by blast

lemma strip_changes:
  assumes "s \<noteq> []" and "isspace (hd s) \<or> isspace (last s)"
  shows "strip s \<noteq> s"
  using assms strip_ends [of s] by metis

subsection \<open>Lines of a document\<close>

lemma splitlines_from_subset:
  "l \<in> set (splitlines_from cur s) \<Longrightarrow> set l \<subseteq> set cur \<union> set s"
proof (induction cur s arbitrary: l rule: splitlines_from.induct)
  case (1 cur)
  then show ?case by (simp split: if_splits)
next
  case (2 cur c)
  show ?case
  proof (cases "is_linebreak c")
    case True
    with 2(2) show ?thesis by auto
  next
    case False
    with 2(2) have "l \<in> set (splitlines_from (cur @ [c]) [])" by simp
    from 2(1) [OF False this] show ?thesis by auto
  qed
next
  case (3 cur c d ds)
  show ?case
  proof (cases "is_linebreak c")
    case False
    with 3(4) have "l \<in> set (splitlines_from (cur @ [c]) (d # ds))" by simp
    from 3(3) [OF False this] show ?thesis by auto
  next
    case lb: True
    show ?thesis
    proof (cases "l = cur")
      case True
      then show ?thesis by auto
    next
      case False
      show ?thesis
      proof (cases "c = CHR 0x0D \<and> d = CHR 0x0A")
        case True
        with lb False 3(4) have "l \<in> set (splitlines_from [] ds)" by simp
        from 3(1) [OF lb True this] show ?thesis by auto
      next
        case nocrlf: False
        with lb False 3(4) have "l \<in> set (splitlines_from [] (d # ds))" by auto
        from 3(2) [OF lb nocrlf this] show ?thesis by auto
      qed
    qed
  qed
qed

lemma splitlines_from_no_break:
  "l \<in> set (splitlines_from cur s) \<Longrightarrow> \<forall>c\<in>set cur. \<not> is_linebreak c \<Longrightarrow>
     \<forall>c\<in>set l. \<not> is_linebreak c"
proof (induction cur s arbitrary: l rule: splitlines_from.induct)
  case (1 cur)
  then show ?case by (simp split: if_splits)
next
  case (2 cur c)
  show ?case
  proof (cases "is_linebreak c")
    case True
    with 2(2,3) show ?thesis by auto
  next
    case False
    with 2(2) have "l \<in> set (splitlines_from (cur @ [c]) [])" by simp
    moreover from False 2(3) have "\<forall>x\<in>set (cur @ [c]). \<not> is_linebreak x" by auto
    ultimately show ?thesis using 2(1) [OF False] by blast
  qed
next
  case (3 cur c d ds)
  show ?case
  proof (cases "is_linebreak c")
    case False
    with 3(4) have "l \<in> set (splitlines_from (cur @ [c]) (d # ds))" by simp
    moreover from False 3(5) have "\<forall>x\<in>set (cur @ [c]). \<not> is_linebreak x" by auto
    ultimately show ?thesis using 3(3) [OF False] by blast
  next
    case lb: True
    show ?thesis
    proof (cases "l = cur")
      case True
      with 3(5) show ?thesis by auto
    next
      case False
      show ?thesis
      proof (cases "c = CHR 0x0D \<and> d = CHR 0x0A")
        case True
        with lb False 3(4) have "l \<in> set (splitlines_from [] ds)" by simp
        from 3(1) [OF lb True this] show ?thesis by simp
      next
        case nocrlf: False
        with lb False 3(4) have "l \<in> set (splitlines_from [] (d # ds))" by auto
        from 3(2) [OF lb nocrlf this] show ?thesis by simp
      qed
    qed
  qed
qed

subsection \<open>Tags, separators and first occurrences\<close>

lemma splitlines_from_single:
  "\<forall>c\<in>set s. \<not> is_linebreak c \<Longrightarrow> cur @ s \<noteq> [] \<Longrightarrow> splitlines_from cur s = [cur @ s]"
  by (induction cur s rule: splitlines_from.induct) auto

lemma strip_tags_no_tag: "CHR ''<'' \<notin> set s \<Longrightarrow> strip_tags s = s"
  by (induction s) auto

lemma startswith_append_sep:
  assumes "startswith (x @ c # y) t" and "c \<notin> set t"
  shows "startswith x t"
proof (cases "length t \<le> length x")
  case True
  with assms(1) show ?thesis by (simp add: startswith_def)
next
  case False
  then have "take (length t) (x @ c # y) = x @ take (length t - length x) (c # y)" by simp
  moreover from False have "take (length t - length x) (c # y) = c # take (length t - length x - 1) y"
    by (cases "length t - length x") auto
  ultimately have "c \<in> set t" using assms(1) unfolding startswith_def
    by (metis in_set_conv_decomp)
  with assms(2) show ?thesis by simp
qed

lemma contains_append_sep:
  assumes "contains (x @ c # y) t" and "c \<notin> set t"
  shows "contains x t \<or> contains y t"
  using assms
proof (induction x)
  case Nil
  show ?case
  proof (cases "startswith (c # y) t")
    case True
    then have "startswith ([] @ c # y) t" by simp
    from startswith_append_sep [OF this Nil(2)] have "t = []" by (simp add: startswith_def)
    then show ?thesis by (cases y) (simp_all add: startswith_def)
  next
    case False
    with Nil(1) show ?thesis by simp
  qed
next
  case (Cons a x)
  show ?case
  proof (cases "startswith ((a # x) @ c # y) t")
    case True
    from startswith_append_sep [OF this Cons(3)] show ?thesis by simp
  next
    case False
    with Cons(2) have "contains (x @ c # y) t" by simp
    from Cons(1) [OF this Cons(3)] show ?thesis by auto
  qed
qed

lemma first_occurrences_snoc:
  "first_occurrences (xs @ [x]) = first_occurrences xs @ (if x \<in> set xs then [] else [x])"
proof -
  let ?ys = "xs @ [x]"
  have u: "[0..<length ?ys] = [0..<length xs] @ [length xs]" by simp
  have f: "filter (\<lambda>i. ?ys ! i \<notin> set (take i ?ys)) [0..<length xs]
         = filter (\<lambda>i. xs ! i \<notin> set (take i xs)) [0..<length xs]"
    by (rule filter_cong) (auto simp: nth_append)
  have m: "map (\<lambda>i. ?ys ! i) (filter (\<lambda>i. xs ! i \<notin> set (take i xs)) [0..<length xs])
         = map (\<lambda>i. xs ! i) (filter (\<lambda>i. xs ! i \<notin> set (take i xs)) [0..<length xs])"
    by (rule map_cong) (auto simp: nth_append)
  have l: "map (\<lambda>i. ?ys ! i) (filter (\<lambda>i. ?ys ! i \<notin> set (take i ?ys)) [length xs])
         = (if x \<in> set xs then [] else [x])"
    by simp
  show ?thesis
    unfolding first_occurrences_def u filter_append map_append f m l ..
qed

lemma set_first_occurrences: "set (first_occurrences xs) = set xs"
proof (induction xs rule: rev_induct)
  case Nil
  show ?case by (simp add: first_occurrences_def)
next
  case (snoc x xs)
  then show ?case by (auto simp: first_occurrences_snoc)
qed

lemma distinct_first_occurrences: "distinct (first_occurrences xs)"
proof (induction xs rule: rev_induct)
  case Nil
  show ?case by (simp add: first_occurrences_def)
next
  case (snoc x xs)
  then show ?case by (simp add: first_occurrences_snoc set_first_occurrences)
qed

subsection \<open>The run up to the gate\<close>

lemma main_reaches_gate:
  assumes "extract_info w url = Inr info" and "download w url = Inr (raw # rest)"
    and "length (clean_vtt raw) < 50"
  shows "main w url m =
     (1, \<lparr>err_lines = [''Fetching video info...'',
            ''Title: '' @ (case info ''title'' of Some t \<Rightarrow> t | None \<Rightarrow> ''Unknown Title''),
            ''Extracting subtitles...'', too_short_msg], out_lines = [], commands = []\<rparr>)"
  using assms
  by (simp add: main_def get_video_info_def extract_subtitles_def print_err_def Let_def)

lemma main_reaches_summarizer:
  assumes "extract_info w url = Inr info" and "download w url = Inr (raw # rest)"
    and "50 \<le> length (clean_vtt raw)"
  shows "main w url m =
    (let model = (case m of None \<Rightarrow> DEFAULT_MODEL | Some x \<Rightarrow> x);
         title = (case info ''title'' of Some t \<Rightarrow> t | None \<Rightarrow> ''Unknown Title'');
         io = \<lparr>err_lines = [''Fetching video info...'', ''Title: '' @ title, ''Extracting subtitles...'']
                  @ (if 100000 < length (clean_vtt raw) then [truncated_msg] else [])
                  @ [''Summarizing with Claude ('' @ model @ '')...''],
               out_lines = [], commands = []\<rparr>
     in case summarize_with_claude w title (take 100000 (clean_vtt raw)) model io of
          (Inl (SystemExit n), io) \<Rightarrow> (n, io)
        | (Inr summary, io) \<Rightarrow> (0, print_out summary (print_out [] io)))"
  using assms
  by (simp add: main_def get_video_info_def extract_subtitles_def print_err_def Let_def
      split: prod.splits)

subsection \<open>Evaluation\<close>

lemmas eval_defs = clean_vtt_def kept_lines_def splitlines_def skip_line_def strip_def
  isspace_def startswith_def isdigit_def isdigit_char_def is_linebreak_def

lemma clean_text49: "clean_vtt text49 = text49"
  by (simp add: text49_def eval_defs)

lemma clean_text50: "clean_vtt text50 = text50"
  by (simp add: text50_def eval_defs)

subsection \<open>The loop and the lines it keeps\<close>

lemma clean_loop_first_occurrences:
  "seen = set p \<Longrightarrow> cleaned = first_occurrences p \<Longrightarrow>
   clean_loop ls seen cleaned =
     first_occurrences (p @ filter (\<lambda>line. line \<noteq> [])
       (map (\<lambda>line. strip (strip_tags line)) (filter (\<lambda>line. \<not> skip_line line) (map strip ls))))"
proof (induction ls arbitrary: seen cleaned p)
  case Nil
  then show ?case by simp
next
  case (Cons l ls)
  let ?x = "strip (strip_tags (strip l))"
  show ?case
  proof (cases "skip_line (strip l) \<or> ?x = []")
    case True
    then show ?thesis using Cons.IH [OF Cons.prems] by (auto simp: Let_def)
  next
    case False
    have s: "set (p @ [?x]) = set (first_occurrences (p @ [?x]))"
      by (simp add: set_first_occurrences)
    show ?thesis
    proof (cases "?x \<in> seen")
      case True
      with Cons.prems have "first_occurrences (p @ [?x]) = cleaned" "set (p @ [?x]) = seen"
        by (auto simp: first_occurrences_snoc)
      from Cons.IH [OF this(2) [symmetric] this(1) [symmetric]] show ?thesis
        using False True by (simp add: Let_def)
    next
      case notin: False
      with Cons.prems have "first_occurrences (p @ [?x]) = cleaned @ [?x]"
        "set (p @ [?x]) = insert ?x seen"
        by (auto simp: first_occurrences_snoc)
      from Cons.IH [OF this(2) [symmetric] this(1) [symmetric]] show ?thesis
        using False notin by (simp add: Let_def)
    qed
  qed
qed

lemma kept_lines_first_occurrences: "kept_lines d = first_occurrences (candidates d)"
  unfolding kept_lines_def candidates_def
  using clean_loop_first_occurrences [of "{}" "[]" "[]" "splitlines d"]
  by (simp add: first_occurrences_def)

lemma join_Cons: "join sep (x # xs) = (if xs = [] then x else x @ sep @ join sep xs)"
  by (cases xs) simp_all

lemma set_tl_dropWhile: "set (tl (dropWhile P xs)) \<subseteq> set xs"
proof -
  have "set (tl ys) \<subseteq> set ys" for ys :: "'a list"
    by (cases ys) auto
  then have "set (tl (dropWhile P xs)) \<subseteq> set (dropWhile P xs)" .
  moreover have "set (dropWhile P xs) \<subseteq> set xs"
    using set_dropWhileD by fastforce
  ultimately show ?thesis by blast
qed

lemma set_strip_tags: "set (strip_tags s) \<subseteq> set s"
proof (induction s rule: strip_tags.induct)
  case 1
  show ?case by simp
next
  case (2 c cs)
  let ?r = "dropWhile (\<lambda>x. x \<noteq> CHR ''>'') cs"
  show ?case
  proof (cases "c = CHR ''<'' \<and> takeWhile (\<lambda>x. x \<noteq> CHR ''>'') cs \<noteq> [] \<and> ?r \<noteq> []")
    case True
    then have eq: "strip_tags (c # cs) = strip_tags (tl ?r)"
      by simp
    from True have "set (strip_tags (tl ?r)) \<subseteq> set (tl ?r)" by (rule 2(1))
    with set_tl_dropWhile [of "\<lambda>x. x \<noteq> CHR ''>''" cs]
    have "set (strip_tags (tl ?r)) \<subseteq> set cs" by blast
    then show ?thesis unfolding eq by (simp add: subset_insertI2)
  next
    case False
    then have eq: "strip_tags (c # cs) = c # strip_tags cs"
      by auto
    from False have "set (strip_tags cs) \<subseteq> set cs" by (rule 2(2))
    then show ?thesis unfolding eq by auto
  qed
qed

lemma sublist_strip: "sublist (strip s) s"
proof -
  obtain ws where "dropWhile isspace s = strip s @ ws"
    using strip_prefix_of_tail by blast
  then have "s = takeWhile isspace s @ strip s @ ws"
    by (metis takeWhile_dropWhile_id)
  then show ?thesis unfolding sublist_def by blast
qed

lemma contains_strip: "contains (strip s) t \<Longrightarrow> contains s t"
  unfolding contains_sublist using sublist_strip [of s] sublist_order.order.trans by blast

lemma candidates_origin:
  assumes "k \<in> set (candidates d)"
  obtains l where "l \<in> set (splitlines d)" and "\<not> skip_line (strip l)"
    and "k = strip (strip_tags (strip l))" and "k \<noteq> []"
  using assms by (auto simp: candidates_def)

lemma splitlines_lines:
  assumes "l \<in> set (splitlines d)"
  shows "set l \<subseteq> set d" and "\<forall>c\<in>set l. \<not> is_linebreak c"
  using assms unfolding splitlines_def
  using splitlines_from_subset [of l "[]" d] splitlines_from_no_break [of l "[]" d] by auto

lemma candidates_trimmed:
  assumes "k \<in> set (candidates d)"
  shows "trimmed_line k"
proof -
  from assms obtain l where l: "l \<in> set (splitlines d)"
    and k: "k = strip (strip_tags (strip l))" and ne: "k \<noteq> []"
    by (rule candidates_origin)
  have "set k \<subseteq> set l"
    unfolding k using set_strip [of "strip_tags (strip l)"] set_strip_tags [of "strip l"]
      set_strip [of l] by blast
  with splitlines_lines(2) [OF l] have "list_all (\<lambda>c. \<not> is_linebreak c) k"
    by (auto simp: list_all_iff)
  moreover from ne have "\<not> isspace (hd k)" "\<not> isspace (last k)"
    unfolding k using strip_ends by blast+
  ultimately show ?thesis using ne by (simp add: trimmed_line_def)
qed

lemma candidates_without_tags:
  assumes "CHR ''<'' \<notin> set d" and "k \<in> set (candidates d)"
  shows "\<not> skip_line k" and "CHR ''<'' \<notin> set k"
proof -
  from assms(2) obtain l where l: "l \<in> set (splitlines d)" and sk: "\<not> skip_line (strip l)"
    and k: "k = strip (strip_tags (strip l))"
    by (rule candidates_origin)
  have sub: "set (strip l) \<subseteq> set d"
    using set_strip [of l] splitlines_lines(1) [OF l] by blast
  with assms(1) have "CHR ''<'' \<notin> set (strip l)" by auto
  then have "strip_tags (strip l) = strip l" by (rule strip_tags_no_tag)
  with k have k': "k = strip l" by (simp add: strip_strip)
  with sk show "\<not> skip_line k" by simp
  from k' sub assms(1) show "CHR ''<'' \<notin> set k" by auto
qed

lemma clean_vtt_single_line:
  assumes "trimmed_line s" and "\<not> skip_line s" and "strip_tags s = s"
  shows "clean_vtt s = s"
proof -
  from assms(1) have ne: "s \<noteq> []" and st: "strip s = s"
    and lb: "\<forall>c\<in>set s. \<not> is_linebreak c"
    by (simp_all add: trimmed_line_def strip_fixed list_all_iff)
  from lb ne have "splitlines s = [s]"
    unfolding splitlines_def using splitlines_from_single [of s "[]"] by simp
  with ne st assms(2,3) have "candidates s = [s]" by (simp add: candidates_def)
  then have "kept_lines s = [s]"
    by (simp add: kept_lines_first_occurrences first_occurrences_def)
  then show ?thesis by (simp add: clean_vtt_def)
qed

subsection \<open>Joining lines\<close>

lemma not_contains_join:
  assumes "\<forall>k\<in>set ks. \<not> contains k t" and "CHR '' '' \<notin> set t" and "t \<noteq> []"
  shows "\<not> contains (join '' '' ks) t"
  using assms(1)
proof (induction ks)
  case Nil
  with assms(3) show ?case by simp
next
  case (Cons k ks)
  show ?case
  proof (cases "ks = []")
    case True
    with Cons.prems show ?thesis by simp
  next
    case False
    have "\<not> contains (k @ CHR '' '' # join '' '' ks) t"
      using contains_append_sep [OF _ assms(2), of k "join '' '' ks"] Cons by auto
    with False show ?thesis by (simp add: join_Cons)
  qed
qed

lemma trimmed_line_sep:
  assumes "trimmed_line x" and "trimmed_line y"
  shows "trimmed_line (x @ CHR '' '' # y)"
  using assms by (simp add: trimmed_line_def is_linebreak_def)

lemma not_skipped_sep:
  assumes "trimmed_line x" and "\<not> skip_line x" and "trimmed_line y" and "\<not> skip_line y"
  shows "\<not> skip_line (x @ CHR '' '' # y)"
proof -
  let ?z = "x @ CHR '' '' # y"
  from trimmed_line_sep [OF assms(1,3)] have st: "strip ?z = ?z"
    by (simp add: trimmed_line_def strip_fixed)
  have sw: "\<not> startswith ?z t" if "\<not> startswith x t" "CHR '' '' \<notin> set t" for t
    using startswith_append_sep [of x "CHR '' ''" y t] that by blast
  have "\<not> contains ?z ''-->''"
    using contains_append_sep [of x "CHR '' ''" y "''-->''"] assms(2,4)
    by (auto simp: skip_line_def)
  moreover have "\<not> isdigit (strip ?z)"
    unfolding st by (simp add: isdigit_def isdigit_char_def)
  moreover from assms(2) have "\<not> startswith x ''WEBVTT''" "\<not> startswith x ''Kind:''"
    "\<not> startswith x ''Language:''" "\<not> startswith x ''NOTE''"
    by (simp_all add: skip_line_def)
  then have "\<not> startswith ?z ''WEBVTT''" "\<not> startswith ?z ''Kind:''"
    "\<not> startswith ?z ''Language:''" "\<not> startswith ?z ''NOTE''"
    by (simp_all add: sw)
  ultimately show ?thesis by (simp add: skip_line_def)
qed

lemma join_lines:
  assumes "ks \<noteq> []" and "\<forall>k\<in>set ks. trimmed_line k"
  shows "trimmed_line (join '' '' ks)"
    and "\<forall>k\<in>set ks. \<not> skip_line k \<Longrightarrow> \<not> skip_line (join '' '' ks)"
    and "\<forall>k\<in>set ks. CHR ''<'' \<notin> set k \<Longrightarrow> CHR ''<'' \<notin> set (join '' '' ks)"
  using assms
proof (induction ks)
  case Nil
  {
    case 1 then show ?case by simp
  next
    case 2 then show ?case by simp
  next
    case 3 then show ?case by simp
  }
next
  case (Cons k ks)
  {
    case 1
    then show ?case using Cons.IH(1) by (cases "ks = []") (simp_all add: join_Cons trimmed_line_sep)
  next
    case 2
    then show ?case using Cons.IH(1,2)
      by (cases "ks = []") (simp_all add: join_Cons not_skipped_sep)
  next
    case 3
    then show ?case using Cons.IH(3) by (cases "ks = []") (simp_all add: join_Cons)
  }
qed

subsection \<open>Order of the kept lines\<close>

lemma first_index_less: "y \<in> set xs \<Longrightarrow> first_index xs y < length xs"
  unfolding first_index_def by (induction xs) auto

lemma first_index_append: "y \<in> set xs \<Longrightarrow> first_index (xs @ zs) y = first_index xs y"
  unfolding first_index_def by (induction xs) auto

lemma first_index_new: "x \<notin> set xs \<Longrightarrow> first_index (xs @ [x]) x = length xs"
  unfolding first_index_def by (induction xs) auto

lemma subseq_first_occurrences: "subseq (first_occurrences xs) xs"
proof (induction xs rule: rev_induct)
  case Nil
  show ?case by (simp add: first_occurrences_def)
next
  case (snoc x xs)
  show ?case
  proof (cases "x \<in> set xs")
    case True
    with snoc show ?thesis by (simp add: first_occurrences_snoc list_emb_prefix)
  next
    case False
    with snoc show ?thesis by (simp add: first_occurrences_snoc list_emb_append_mono)
  qed
qed

lemma first_occurrences_in_order:
  "sorted_wrt (<) (map (first_index xs) (first_occurrences xs))"
proof (induction xs rule: rev_induct)
  case Nil
  show ?case by (simp add: first_occurrences_def)
next
  case (snoc x xs)
  have same: "map (first_index (xs @ [x])) (first_occurrences xs)
            = map (first_index xs) (first_occurrences xs)"
    by (rule map_cong) (simp_all add: set_first_occurrences first_index_append)
  show ?case
  proof (cases "x \<in> set xs")
    case True
    with snoc show ?thesis by (simp add: first_occurrences_snoc same)
  next
    case False
    have "\<forall>i\<in>set (map (first_index xs) (first_occurrences xs)). i < length xs"
      by (auto simp: set_first_occurrences first_index_less)
    with False snoc show ?thesis
      by (simp add: first_occurrences_snoc same sorted_wrt_append first_index_new)
  qed
qed

subsection \<open>Cleaning a cleaned text\<close>

lemma kept_lines_candidates: "set (kept_lines d) = set (candidates d)"
  by (simp add: kept_lines_first_occurrences set_first_occurrences)

lemma no_marker_in_join:
  assumes "\<forall>k\<in>set (candidates d). \<not> contains k ''-->''"
  shows "\<not> contains (clean_vtt d) ''-->''"
  unfolding clean_vtt_def
  using assms by (intro not_contains_join) (simp_all add: kept_lines_candidates)

lemma clean_vtt_fixed:
  assumes "\<not> skip_line (clean_vtt d)" and "strip_tags (clean_vtt d) = clean_vtt d"
  shows "clean_vtt (clean_vtt d) = clean_vtt d"
proof -
  from assms(1) have "clean_vtt d \<noteq> []" by (auto simp: skip_line_def)
  then have ne: "kept_lines d \<noteq> []" by (auto simp: clean_vtt_def)
  have "\<forall>k\<in>set (kept_lines d). trimmed_line k"
    by (simp add: kept_lines_candidates candidates_trimmed)
  with ne have "trimmed_line (clean_vtt d)"
    unfolding clean_vtt_def by (rule join_lines(1))
  then show ?thesis using assms by (rule clean_vtt_single_line)
qed

lemma clean_vtt_empty: "clean_vtt [] = []"
  by (simp add: clean_vtt_def kept_lines_def splitlines_def)

lemma clean_vtt_without_tags:
  assumes "CHR ''<'' \<notin> set d"
  shows "clean_vtt (clean_vtt d) = clean_vtt d"
proof (cases "kept_lines d = []")
  case True
  then show ?thesis by (simp add: clean_vtt_def clean_vtt_empty [unfolded clean_vtt_def])
next
  case False
  have tr: "\<forall>k\<in>set (kept_lines d). trimmed_line k"
    by (simp add: kept_lines_candidates candidates_trimmed)
  have "\<forall>k\<in>set (kept_lines d). \<not> skip_line k"
    and "\<forall>k\<in>set (kept_lines d). CHR ''<'' \<notin> set k"
    using candidates_without_tags [OF assms] by (simp_all add: kept_lines_candidates)
  with join_lines(2,3) [OF False tr]
  have "\<not> skip_line (clean_vtt d)" and "CHR ''<'' \<notin> set (clean_vtt d)"
    by (simp_all add: clean_vtt_def)
  then show ?thesis by (intro clean_vtt_fixed strip_tags_no_tag)
qed

subsection \<open>The example documents\<close>

lemma clean_scenario_doc: "clean_vtt scenario_doc = ''Hello world''"
  by (simp add: scenario_doc_def eval_defs)

lemma clean_numbered_doc: "clean_vtt numbered_doc = ''Hello world again''"
  by (simp add: numbered_doc_def eval_defs)

lemma splitlines_header_doc:
  "splitlines header_doc = [''WEBVTT'', ''Kind: captions'', ''Language: en'']"
  by (simp add: header_doc_def splitlines_def is_linebreak_def)

lemma candidates_repeating_doc:
  "candidates repeating_doc = [''one'', ''two'', ''one'', ''One'', ''two'', ''three'']"
  by (simp add: repeating_doc_def candidates_def eval_defs Let_def)

lemma kept_repeating_doc:
  "kept_lines repeating_doc = [''one'', ''two'', ''One'', ''three'']"
  by (simp add: repeating_doc_def eval_defs Let_def)

subsection \<open>Runs on run-time values\<close>

lemma py_skip_line_Str: "py_skip_line (Str s) = Inr (skip_line s)"
  by (simp add: py_skip_line_def skip_line_def py_or_def py_and_def py_truth_def
      py_startswith_def py_in_def py_first_def py_strip_def py_isdigit_def)

lemma py_clean_loop_Str:
  "py_clean_loop (map Str ls) (Str ` seen) (map Str cleaned) =
     Inr (map Str (clean_loop ls seen cleaned))"
proof (induction ls arbitrary: seen cleaned)
  case Nil
  show ?case by simp
next
  case (Cons l ls)
  let ?line = "strip (strip_tags (strip l))"
  have ins: "insert (Str ?line) (Str ` seen) = Str ` insert ?line seen" by simp
  have app: "map Str cleaned @ [Str ?line] = map Str (cleaned @ [?line])" by simp
  have mem: "Str ?line \<in> Str ` seen \<longleftrightarrow> ?line \<in> seen" by auto
  show ?case
    by (simp only: list.map py_clean_loop.simps clean_loop.simps py_strip_def re_sub_tags_def
        py_skip_line_Str py_truth_def pyval.case sum.case Let_def ins app mem Cons.IH
        if_distrib [of "\<lambda>x. Inr (map Str x)"] cong: if_cong)
qed

lemma py_join_Str: "py_join sep (map Str xs) = Inr (Str (join sep xs))"
  by (simp add: py_join_def list_all_iff comp_def)

lemma py_clean_vtt_Str: "py_clean_vtt (Str d) = Inr (Str (clean_vtt d))"
  using py_clean_loop_Str [of "splitlines d" "{}" "[]"]
  by (simp add: py_clean_vtt_def py_splitlines_def clean_vtt_def kept_lines_def py_join_Str)

section \<open>The claims about the cleaning transform\<close>

text \<open>
  C1. Claimed: for every subtitle document the string returned by \<open>clean_vtt\<close>
  contains no \<open>-->\<close>. The loop tests a line for \<open>-->\<close> before it removes the
  tags, so a marker that only forms when a tag between its characters is removed
  stays in the result. What holds: when removing the tags of a line never forms a
  \<open>-->\<close> that the trimmed line did not have, and in particular when the document has
  no \<open><\<close>, the result contains no \<open>-->\<close>.
\<close>

theorem no_timestamp_marker:
  "((\<forall>l\<in>set (splitlines d).
        contains (strip_tags (strip l)) ''-->'' \<longrightarrow> contains (strip l) ''-->'')
      \<longrightarrow> \<not> contains (clean_vtt d) ''-->'')
   \<and> (CHR ''<'' \<notin> set d \<longrightarrow> \<not> contains (clean_vtt d) ''-->'')"
proof (intro conjI impI)
  assume safe: "\<forall>l\<in>set (splitlines d).
    contains (strip_tags (strip l)) ''-->'' \<longrightarrow> contains (strip l) ''-->''"
  have "\<not> contains k ''-->''" if "k \<in> set (candidates d)" for k
  proof -
    from that obtain l where l: "l \<in> set (splitlines d)" and sk: "\<not> skip_line (strip l)"
      and k: "k = strip (strip_tags (strip l))"
      by (rule candidates_origin)
    from sk have "\<not> contains (strip l) ''-->''" by (simp add: skip_line_def)
    with safe l have "\<not> contains (strip_tags (strip l)) ''-->''" by blast
    then show ?thesis unfolding k using contains_strip by blast
  qed
  then show "\<not> contains (clean_vtt d) ''-->''" by (intro no_marker_in_join) blast
next
  assume "CHR ''<'' \<notin> set d"
  then have "\<not> contains k ''-->''" if "k \<in> set (candidates d)" for k
    using candidates_without_tags(1) [of d k] that by (simp add: skip_line_def)
  then show "\<not> contains (clean_vtt d) ''-->''" by (intro no_marker_in_join) blast
qed

theorem no_timestamp_marker_witness:
  "clean_vtt scenario_doc = ''Hello world''
   \<and> \<not> contains (clean_vtt scenario_doc) ''-->''
   \<and> CHR ''<'' \<notin> set numbered_doc
   \<and> \<not> contains (clean_vtt numbered_doc) ''-->''"
proof -
  have safe: "\<forall>l\<in>set (splitlines scenario_doc).
      contains (strip_tags (strip l)) ''-->'' \<longrightarrow> contains (strip l) ''-->''"
    by (simp add: scenario_doc_def splitlines_def is_linebreak_def strip_def isspace_def
        startswith_def)
  have plain: "CHR ''<'' \<notin> set numbered_doc" by (simp add: numbered_doc_def)
  from no_timestamp_marker [of scenario_doc] safe
  have "\<not> contains (clean_vtt scenario_doc) ''-->''" by blast
  moreover from no_timestamp_marker [of numbered_doc] plain
  have "\<not> contains (clean_vtt numbered_doc) ''-->''" by blast
  ultimately show ?thesis using plain clean_scenario_doc by simp
qed

theorem timestamp_marker_counterexample:
  "contains (clean_vtt ''-<c>->'') ''-->''"
  by (simp add: eval_defs)

text \<open>
  C2. Claimed: \<open>clean_vtt (clean_vtt d) = clean_vtt d\<close> for every document. The
  second pass reads the cleaned text as one line and applies the skip test and the tag
  removal to it again, so a text that only appeared once the tags were gone can be
  dropped. What holds: the second pass returns the same text for every document
  without \<open><\<close>, and for any document whose cleaned text is not itself a line that
  the loop skips and holds no tag.
\<close>

theorem clean_vtt_idempotent:
  "(CHR ''<'' \<notin> set d \<longrightarrow> clean_vtt (clean_vtt d) = clean_vtt d)
   \<and> (\<not> skip_line (clean_vtt d) \<and> strip_tags (clean_vtt d) = clean_vtt d
        \<longrightarrow> clean_vtt (clean_vtt d) = clean_vtt d)"
  using clean_vtt_without_tags [of d] clean_vtt_fixed [of d] by blast

theorem clean_vtt_idempotent_witness:
  "CHR ''<'' \<notin> set numbered_doc
   \<and> clean_vtt numbered_doc = ''Hello world again''
   \<and> clean_vtt (clean_vtt numbered_doc) = clean_vtt numbered_doc
   \<and> \<not> skip_line (clean_vtt scenario_doc)
   \<and> strip_tags (clean_vtt scenario_doc) = clean_vtt scenario_doc
   \<and> clean_vtt (clean_vtt scenario_doc) = clean_vtt scenario_doc"
proof -
  have plain: "CHR ''<'' \<notin> set numbered_doc" by (simp add: numbered_doc_def)
  have kept: "\<not> skip_line (clean_vtt scenario_doc)"
    "strip_tags (clean_vtt scenario_doc) = clean_vtt scenario_doc"
    unfolding clean_scenario_doc
    by (simp_all add: skip_line_def startswith_def isdigit_def isdigit_char_def)
  from clean_vtt_idempotent [of numbered_doc] plain
  have "clean_vtt (clean_vtt numbered_doc) = clean_vtt numbered_doc" by blast
  moreover from clean_vtt_idempotent [of scenario_doc] kept
  have "clean_vtt (clean_vtt scenario_doc) = clean_vtt scenario_doc" by blast
  ultimately show ?thesis using plain kept clean_numbered_doc by simp
qed

theorem clean_vtt_idempotent_counterexample:
  "clean_vtt ''<c>2024</c>'' = ''2024''
   \<and> clean_vtt (clean_vtt ''<c>2024</c>'') \<noteq> clean_vtt ''<c>2024</c>''"
  by (simp add: eval_defs)

text \<open>
  C5. The lines kept by the loop hold no duplicate. A line is compared, after trimming
  and tag removal, by equality of the strings with every line kept so far, so the kept
  lines are exactly the candidate lines at their first occurrence, each candidate
  line is kept once, and a later occurrence leaves no trace.
\<close>

theorem kept_lines_deduplicated:
  "distinct (kept_lines d)
   \<and> set (kept_lines d) = set (candidates d)
   \<and> kept_lines d = first_occurrences (candidates d)"
  by (simp add: kept_lines_first_occurrences distinct_first_occurrences set_first_occurrences)

theorem kept_lines_deduplicated_witness:
  "candidates repeating_doc = [''one'', ''two'', ''one'', ''One'', ''two'', ''three'']
   \<and> kept_lines repeating_doc = [''one'', ''two'', ''One'', ''three'']
   \<and> distinct (kept_lines repeating_doc)"
proof -
  from kept_lines_deduplicated [of repeating_doc]
  have "distinct (kept_lines repeating_doc)" by blast
  then show ?thesis by (simp add: candidates_repeating_doc kept_repeating_doc)
qed

text \<open>
  C6. The result is the kept lines joined by single spaces, and the kept lines stand
  in the order of their first appearance in the document: they are a subsequence of the
  candidate lines, and the positions of their first occurrences increase strictly.
\<close>

theorem kept_lines_in_order:
  "clean_vtt d = join '' '' (kept_lines d)
   \<and> subseq (kept_lines d) (candidates d)
   \<and> sorted_wrt (<) (map (first_index (candidates d)) (kept_lines d))"
  by (simp add: clean_vtt_def kept_lines_first_occurrences subseq_first_occurrences
      first_occurrences_in_order)

theorem kept_lines_in_order_witness:
  "clean_vtt repeating_doc = ''one two One three''
   \<and> map (first_index (candidates repeating_doc)) (kept_lines repeating_doc) = [0, 1, 3, 5]"
proof -
  from kept_lines_in_order [of repeating_doc]
  have "clean_vtt repeating_doc = join '' '' (kept_lines repeating_doc)" by blast
  then show ?thesis
    by (simp add: candidates_repeating_doc kept_repeating_doc first_index_def)
qed

text \<open>
  C8. \<open>clean_vtt\<close> returns a string for every string it is given, and no
  operation in it raises: on run-time values, where a call on the wrong kind of object
  is an \<open>AttributeError\<close> or a \<open>TypeError\<close>, the run on a string \<open>d\<close> ends
  with the value \<open>clean_vtt d\<close> and never with an exception. The empty document
  gives the empty string, and so does every document whose lines all start, once
  trimmed, with \<open>WEBVTT\<close>, \<open>Kind:\<close> or \<open>Language:\<close>.
\<close>

theorem clean_vtt_total:
  "py_clean_vtt (Str d) = Inr (Str (clean_vtt d))
   \<and> py_clean_vtt (Str []) = Inr (Str [])
   \<and> ((\<forall>l\<in>set (splitlines d). startswith (strip l) ''WEBVTT''
          \<or> startswith (strip l) ''Kind:'' \<or> startswith (strip l) ''Language:'')
        \<longrightarrow> py_clean_vtt (Str d) = Inr (Str []))"
proof (intro conjI impI)
  show "py_clean_vtt (Str d) = Inr (Str (clean_vtt d))" by (rule py_clean_vtt_Str)
  show "py_clean_vtt (Str []) = Inr (Str [])" by (simp add: py_clean_vtt_Str clean_vtt_empty)
  assume "\<forall>l\<in>set (splitlines d). startswith (strip l) ''WEBVTT''
          \<or> startswith (strip l) ''Kind:'' \<or> startswith (strip l) ''Language:''"
  then have "\<forall>l\<in>set (splitlines d). skip_line (strip l)"
    by (auto simp: skip_line_def)
  then have "filter (\<lambda>line. \<not> skip_line line) (map strip (splitlines d)) = []"
    by (simp add: filter_empty_conv)
  then have "candidates d = []" by (simp add: candidates_def)
  then have "clean_vtt d = []"
    by (simp add: clean_vtt_def kept_lines_first_occurrences first_occurrences_def)
  then show "py_clean_vtt (Str d) = Inr (Str [])" by (simp add: py_clean_vtt_Str)
qed

theorem clean_vtt_total_witness:
  "splitlines header_doc = [''WEBVTT'', ''Kind: captions'', ''Language: en'']
   \<and> py_clean_vtt (Str header_doc) = Inr (Str [])
   \<and> py_clean_vtt (Str scenario_doc) = Inr (Str ''Hello world'')
   \<and> py_clean_vtt (Str repeating_doc) = Inr (Str ''one two One three'')
   \<and> py_clean_vtt NoneVal = Inl AttributeError"
proof -
  have h: "\<forall>l\<in>set (splitlines header_doc). startswith (strip l) ''WEBVTT''
      \<or> startswith (strip l) ''Kind:'' \<or> startswith (strip l) ''Language:''"
    by (simp add: splitlines_header_doc strip_def isspace_def startswith_def)
  have r: "clean_vtt repeating_doc = ''one two One three''"
    by (simp add: clean_vtt_def kept_repeating_doc)
  have n: "py_clean_vtt NoneVal = Inl AttributeError"
    by (simp add: py_clean_vtt_def py_splitlines_def)
  from clean_vtt_total [of header_doc] h
  have "py_clean_vtt (Str header_doc) = Inr (Str [])" by blast
  moreover from clean_vtt_total [of scenario_doc]
  have "py_clean_vtt (Str scenario_doc) = Inr (Str ''Hello world'')"
    by (simp add: clean_scenario_doc)
  moreover from clean_vtt_total [of repeating_doc]
  have "py_clean_vtt (Str repeating_doc) = Inr (Str ''one two One three'')"
    by (simp add: r)
  ultimately show ?thesis using n by (simp add: splitlines_header_doc)
qed

section \<open>The claims about the pipeline\<close>

lemma contains_suffix: "contains (p @ s) s"
  unfolding contains_sublist sublist_def by (metis append_Nil2)

lemma clean_long_text: "clean_vtt long_text = long_text"
proof -
  have l: "long_text = CHR ''a'' # replicate 100000 CHR ''a''"
    unfolding long_text_def by (simp flip: replicate_Suc)
  have "\<not> contains long_text ''-->''"
  proof
    assume "contains long_text ''-->''"
    then have "set ''-->'' \<subseteq> set long_text"
      unfolding contains_sublist by (rule set_mono_sublist)
    then show False by (simp add: long_text_def)
  qed
  moreover have "strip long_text = long_text"
    by (rule strip_fixed) (simp add: long_text_def isspace_def)
  ultimately have "\<not> skip_line long_text"
    by (simp add: skip_line_def) (simp add: l startswith_def isdigit_def isdigit_char_def)
  moreover have "trimmed_line long_text"
    by (simp add: trimmed_line_def long_text_def isspace_def is_linebreak_def list_all_iff)
  moreover have "strip_tags long_text = long_text"
    by (rule strip_tags_no_tag) (simp add: long_text_def)
  ultimately show ?thesis by (intro clean_vtt_single_line)
qed

text \<open>
  C3. Once the metadata and a subtitle file are there, the run stops at the
  minimum-content gate exactly when the cleaned transcript has fewer than 50
  characters: then no process is started, the message about too short subtitles is
  printed and the exit status is 1; with 50 characters or more the message is not
  printed and the generation process is started.
\<close>

theorem min_content_gate:
  assumes "extract_info w url = Inr info" and "download w url = Inr (raw # rest)"
  shows "(length (clean_vtt raw) < 50 \<longleftrightarrow> commands (snd (main w url m)) = [])
       \<and> (length (clean_vtt raw) < 50 \<longleftrightarrow> too_short_msg \<in> set (err_lines (snd (main w url m))))
       \<and> (length (clean_vtt raw) < 50 \<longrightarrow> fst (main w url m) = 1)"
proof (cases "length (clean_vtt raw) < 50")
  case True
  from main_reaches_gate [OF assms True] show ?thesis
    using True by simp
next
  case False
  then have ge: "50 \<le> length (clean_vtt raw)" by simp
  show ?thesis
    using False
    by (simp add: main_reaches_summarizer [OF assms ge] summarize_with_claude_def print_err_def
        print_out_def Let_def too_short_msg_def truncated_msg_def)
qed

theorem min_content_gate_witness:
  "length (clean_vtt text49) = 49
   \<and> fst (main (demo_world Map.empty text49 answered) ''u'' None) = 1
   \<and> commands (snd (main (demo_world Map.empty text49 answered) ''u'' None)) = []
   \<and> length (clean_vtt text50) = 50
   \<and> commands (snd (main (demo_world Map.empty text50 answered) ''u'' None)) \<noteq> []"
proof -
  have l: "length (clean_vtt text49) = 49" "length (clean_vtt text50) = 50"
    by (simp_all add: clean_text49 clean_text50) (simp_all add: text49_def text50_def)
  have w: "extract_info (demo_world Map.empty t answered) ''u'' = Inr Map.empty"
    "download (demo_world Map.empty t answered) ''u'' = Inr [t]" for t
    by (simp_all add: demo_world_def)
  from min_content_gate [OF w, of text49 None] min_content_gate [OF w, of text50 None] l
  show ?thesis by simp
qed

text \<open>
  C4. When the run reaches the generation step, the transcript put into the prompt is
  the first 100000 characters of the cleaned transcript. A transcript longer than
  that is cut to exactly 100000 characters and the truncation notice is printed; a
  transcript of 50 to 100000 characters goes into the prompt unchanged, without the
  notice. (A transcript below 50 characters stops at the gate of C3.)
\<close>

theorem truncation_policy:
  assumes "extract_info w url = Inr info" and "download w url = Inr (raw # rest)"
  shows "(100000 < length (clean_vtt raw) \<longrightarrow>
            commands (snd (main w url m)) =
              [claude_argv (case info ''title'' of Some t \<Rightarrow> t | None \<Rightarrow> ''Unknown Title'')
                 (take 100000 (clean_vtt raw))
                 (case m of None \<Rightarrow> DEFAULT_MODEL | Some x \<Rightarrow> x)]
            \<and> length (take 100000 (clean_vtt raw)) = 100000
            \<and> truncated_msg \<in> set (err_lines (snd (main w url m))))
       \<and> (50 \<le> length (clean_vtt raw) \<and> length (clean_vtt raw) \<le> 100000 \<longrightarrow>
            commands (snd (main w url m)) =
              [claude_argv (case info ''title'' of Some t \<Rightarrow> t | None \<Rightarrow> ''Unknown Title'')
                 (clean_vtt raw)
                 (case m of None \<Rightarrow> DEFAULT_MODEL | Some x \<Rightarrow> x)]
            \<and> truncated_msg \<notin> set (err_lines (snd (main w url m))))"
proof (intro conjI impI)
  assume long: "100000 < length (clean_vtt raw)"
  then have ge: "50 \<le> length (clean_vtt raw)" by simp
  note run = main_reaches_summarizer [OF assms ge]
  from long show "commands (snd (main w url m)) =
      [claude_argv (case info ''title'' of Some t \<Rightarrow> t | None \<Rightarrow> ''Unknown Title'')
         (take 100000 (clean_vtt raw)) (case m of None \<Rightarrow> DEFAULT_MODEL | Some x \<Rightarrow> x)]"
    by (simp add: run summarize_with_claude_def print_err_def print_out_def Let_def)
  from long show "length (take 100000 (clean_vtt raw)) = 100000" by simp
  from long show "truncated_msg \<in> set (err_lines (snd (main w url m)))"
    by (simp add: run summarize_with_claude_def print_err_def print_out_def Let_def)
next
  assume "50 \<le> length (clean_vtt raw) \<and> length (clean_vtt raw) \<le> 100000"
  then have ge: "50 \<le> length (clean_vtt raw)" and le: "length (clean_vtt raw) \<le> 100000"
    by simp_all
  note run = main_reaches_summarizer [OF assms ge]
  from le show "commands (snd (main w url m)) =
      [claude_argv (case info ''title'' of Some t \<Rightarrow> t | None \<Rightarrow> ''Unknown Title'')
         (clean_vtt raw) (case m of None \<Rightarrow> DEFAULT_MODEL | Some x \<Rightarrow> x)]"
    by (simp add: run summarize_with_claude_def print_err_def print_out_def Let_def)
  from le show "truncated_msg \<notin> set (err_lines (snd (main w url m)))"
    by (simp add: run summarize_with_claude_def print_err_def print_out_def Let_def
        truncated_msg_def)
qed

theorem truncation_policy_witness:
  "length (clean_vtt long_text) = 100001
   \<and> commands (snd (main (demo_world Map.empty long_text answered) ''u'' None)) =
       [claude_argv ''Unknown Title'' (replicate 100000 CHR ''a'') DEFAULT_MODEL]
   \<and> truncated_msg \<in> set (err_lines (snd (main (demo_world Map.empty long_text answered) ''u'' None)))
   \<and> commands (snd (main (demo_world Map.empty text50 answered) ''u'' None)) =
       [claude_argv ''Unknown Title'' text50 DEFAULT_MODEL]
   \<and> truncated_msg \<notin> set (err_lines (snd (main (demo_world Map.empty text50 answered) ''u'' None)))"
proof -
  have l: "length (clean_vtt long_text) = 100001" "length (clean_vtt text50) = 50"
    "take 100000 (clean_vtt long_text) = replicate 100000 CHR ''a''"
    by (simp_all add: clean_long_text clean_text50) (simp_all add: long_text_def text50_def)
  have w: "extract_info (demo_world Map.empty t answered) ''u'' = Inr Map.empty"
    "download (demo_world Map.empty t answered) ''u'' = Inr [t]" for t
    by (simp_all add: demo_world_def)
  from truncation_policy [OF w, of long_text None] truncation_policy [OF w, of text50 None] l
  show ?thesis by (simp add: clean_text50)
qed

text \<open>
  C7. When the generation process returns a non-zero status, \<open>summarize_with_claude\<close>
  prints \<open>Error calling Claude: \<close> followed by what the process wrote to its
  standard error, and exits with status 1; nothing catches the exit, so a run that
  reached the generation step ends with status 1, this message last on its standard
  error and nothing on its standard output. With status zero the function returns a
  text and prints nothing, and the run ends with status 0.
\<close>

theorem generation_failure_is_fatal:
  "(returncode (subprocess_run w (claude_argv t s mo)) \<noteq> 0 \<longrightarrow>
      fst (summarize_with_claude w t s mo io) = Inl (SystemExit 1)
      \<and> err_lines (snd (summarize_with_claude w t s mo io)) =
          err_lines io @ [''Error calling Claude: '' @ stderr (subprocess_run w (claude_argv t s mo))]
      \<and> contains (last (err_lines (snd (summarize_with_claude w t s mo io))))
          (stderr (subprocess_run w (claude_argv t s mo))))
   \<and> (returncode (subprocess_run w (claude_argv t s mo)) = 0 \<longrightarrow>
      (\<exists>summary. fst (summarize_with_claude w t s mo io) = Inr summary)
      \<and> err_lines (snd (summarize_with_claude w t s mo io)) = err_lines io)
   \<and> (extract_info w url = Inr info \<and> download w url = Inr (raw # rest)
        \<and> 50 \<le> length (clean_vtt raw)
        \<and> t = (case info ''title'' of Some x \<Rightarrow> x | None \<Rightarrow> ''Unknown Title'')
        \<and> s = take 100000 (clean_vtt raw)
        \<and> mo = (case m of None \<Rightarrow> DEFAULT_MODEL | Some x \<Rightarrow> x) \<longrightarrow>
      (returncode (subprocess_run w (claude_argv t s mo)) \<noteq> 0 \<longrightarrow>
         fst (main w url m) = 1
         \<and> last (err_lines (snd (main w url m))) =
             ''Error calling Claude: '' @ stderr (subprocess_run w (claude_argv t s mo))
         \<and> out_lines (snd (main w url m)) = [])
      \<and> (returncode (subprocess_run w (claude_argv t s mo)) = 0 \<longrightarrow>
         fst (main w url m) = 0))"
proof (intro conjI impI)
  assume "returncode (subprocess_run w (claude_argv t s mo)) \<noteq> 0"
  then show "fst (summarize_with_claude w t s mo io) = Inl (SystemExit 1)"
    and e: "err_lines (snd (summarize_with_claude w t s mo io)) =
          err_lines io @ [''Error calling Claude: '' @ stderr (subprocess_run w (claude_argv t s mo))]"
    by (simp_all add: summarize_with_claude_def print_err_def Let_def)
  show "contains (last (err_lines (snd (summarize_with_claude w t s mo io))))
          (stderr (subprocess_run w (claude_argv t s mo)))"
    by (simp only: e last_snoc contains_suffix)
next
  assume "returncode (subprocess_run w (claude_argv t s mo)) = 0"
  then show "\<exists>summary. fst (summarize_with_claude w t s mo io) = Inr summary"
    and "err_lines (snd (summarize_with_claude w t s mo io)) = err_lines io"
    by (simp_all add: summarize_with_claude_def Let_def)
next
  assume run: "extract_info w url = Inr info \<and> download w url = Inr (raw # rest)
        \<and> 50 \<le> length (clean_vtt raw)
        \<and> t = (case info ''title'' of Some x \<Rightarrow> x | None \<Rightarrow> ''Unknown Title'')
        \<and> s = take 100000 (clean_vtt raw)
        \<and> mo = (case m of None \<Rightarrow> DEFAULT_MODEL | Some x \<Rightarrow> x)"
  then have eq: "main w url m =
    (let model = (case m of None \<Rightarrow> DEFAULT_MODEL | Some x \<Rightarrow> x);
         title = (case info ''title'' of Some t \<Rightarrow> t | None \<Rightarrow> ''Unknown Title'');
         io = \<lparr>err_lines = [''Fetching video info...'', ''Title: '' @ title, ''Extracting subtitles...'']
                  @ (if 100000 < length (clean_vtt raw) then [truncated_msg] else [])
                  @ [''Summarizing with Claude ('' @ model @ '')...''],
               out_lines = [], commands = []\<rparr>
     in case summarize_with_claude w title (take 100000 (clean_vtt raw)) model io of
          (Inl (SystemExit n), io) \<Rightarrow> (n, io)
        | (Inr summary, io) \<Rightarrow> (0, print_out summary (print_out [] io)))"
    by (intro main_reaches_summarizer) simp_all
  {
    assume "returncode (subprocess_run w (claude_argv t s mo)) \<noteq> 0"
    with run show "fst (main w url m) = 1"
      and "last (err_lines (snd (main w url m))) =
             ''Error calling Claude: '' @ stderr (subprocess_run w (claude_argv t s mo))"
      and "out_lines (snd (main w url m)) = []"
      by (simp_all add: eq summarize_with_claude_def print_err_def Let_def)
  next
    assume "returncode (subprocess_run w (claude_argv t s mo)) = 0"
    with run show "fst (main w url m) = 0"
      by (simp add: eq summarize_with_claude_def Let_def)
  }
qed

theorem generation_failure_is_fatal_witness:
  "returncode rate_limited = 1
   \<and> fst (main (demo_world Map.empty text50 rate_limited) ''u'' None) = 1
   \<and> last (err_lines (snd (main (demo_world Map.empty text50 rate_limited) ''u'' None))) =
       ''Error calling Claude: rate limited''
   \<and> contains ''Error calling Claude: rate limited'' ''rate limited''
   \<and> out_lines (snd (main (demo_world Map.empty text50 rate_limited) ''u'' None)) = []
   \<and> fst (main (demo_world Map.empty text50 answered) ''u'' None) = 0"
proof -
  let ?io = "\<lparr>err_lines = [], out_lines = [], commands = []\<rparr>"
  have w: "extract_info (demo_world Map.empty text50 r) ''u'' = Inr Map.empty"
    "download (demo_world Map.empty text50 r) ''u'' = Inr [text50]"
    "subprocess_run (demo_world Map.empty text50 r) a = r" for r a
    by (simp_all add: demo_world_def)
  have l: "50 \<le> length (clean_vtt text50)"
    by (simp add: clean_text50) (simp add: text50_def)
  have r: "returncode rate_limited = 1" "stderr rate_limited = ''rate limited''"
    "returncode answered = 0"
    by (simp_all add: rate_limited_def answered_def)
  from generation_failure_is_fatal
    [of "demo_world Map.empty text50 rate_limited" "''Unknown Title''"
      "take 100000 (clean_vtt text50)" DEFAULT_MODEL ?io "''u''" Map.empty text50 "[]" None]
    generation_failure_is_fatal
    [of "demo_world Map.empty text50 answered" "''Unknown Title''"
      "take 100000 (clean_vtt text50)" DEFAULT_MODEL ?io "''u''" Map.empty text50 "[]" None]
    w l r
  show ?thesis by (simp add: startswith_def)
qed

text \<open>
  C9. When the generation process returns status zero, the text that
  \<open>summarize_with_claude\<close> returns is the standard output of the process with the
  whitespace at both ends removed; it differs from the raw output whenever that one
  begins or ends with whitespace.
\<close>

theorem summary_is_stripped_stdout:
  "(returncode (subprocess_run w (claude_argv t s mo)) = 0 \<longrightarrow>
      fst (summarize_with_claude w t s mo io) =
        Inr (strip (stdout (subprocess_run w (claude_argv t s mo)))))
   \<and> (returncode (subprocess_run w (claude_argv t s mo)) = 0
        \<and> stdout (subprocess_run w (claude_argv t s mo)) \<noteq> []
        \<and> (isspace (hd (stdout (subprocess_run w (claude_argv t s mo))))
             \<or> isspace (last (stdout (subprocess_run w (claude_argv t s mo))))) \<longrightarrow>
      fst (summarize_with_claude w t s mo io) \<noteq>
        Inr (stdout (subprocess_run w (claude_argv t s mo))))"
proof (intro conjI impI)
  assume "returncode (subprocess_run w (claude_argv t s mo)) = 0"
  then show "fst (summarize_with_claude w t s mo io) =
      Inr (strip (stdout (subprocess_run w (claude_argv t s mo))))"
    by (simp add: summarize_with_claude_def Let_def)
next
  let ?out = "stdout (subprocess_run w (claude_argv t s mo))"
  assume a: "returncode (subprocess_run w (claude_argv t s mo)) = 0
        \<and> ?out \<noteq> [] \<and> (isspace (hd ?out) \<or> isspace (last ?out))"
  then have "strip ?out \<noteq> ?out" by (intro strip_changes) simp_all
  with a show "fst (summarize_with_claude w t s mo io) \<noteq> Inr ?out"
    by (simp add: summarize_with_claude_def Let_def)
qed

theorem summary_is_stripped_stdout_witness:
  "stdout answered = '' A summary.\<newline>''
   \<and> fst (summarize_with_claude (demo_world Map.empty text50 answered) ''T'' text50 ''m''
        \<lparr>err_lines = [], out_lines = [], commands = []\<rparr>) = Inr ''A summary.''"
proof -
  have w: "subprocess_run (demo_world Map.empty text50 answered) a = answered" for a
    by (simp add: demo_world_def)
  have r: "returncode answered = 0" "stdout answered = '' A summary.\<newline>''"
    "strip (stdout answered) = ''A summary.''"
    by (simp_all add: answered_def strip_def isspace_def)
  from summary_is_stripped_stdout
    [of "demo_world Map.empty text50 answered" "''T''" text50 "''m''"
      "\<lparr>err_lines = [], out_lines = [], commands = []\<rparr>"] w r
  show ?thesis by simp
qed

text \<open>
  C10. When the metadata has no \<open>title\<close> entry, the run goes on with the title
  \<open>Unknown Title\<close>: it prints \<open>Title: Unknown Title\<close>, goes on to extract the
  subtitles, and when a transcript of at least 50 characters comes back the prompt
  given to the generation process is built with that title.
\<close>

theorem missing_title_falls_back:
  assumes "extract_info w url = Inr info" and "info ''title'' = None"
  shows "take 3 (err_lines (snd (main w url m))) =
           [''Fetching video info...'', ''Title: Unknown Title'', ''Extracting subtitles...'']
       \<and> (download w url = Inr (raw # rest) \<and> 50 \<le> length (clean_vtt raw) \<longrightarrow>
            commands (snd (main w url m)) =
              [claude_argv ''Unknown Title'' (take 100000 (clean_vtt raw))
                 (case m of None \<Rightarrow> DEFAULT_MODEL | Some x \<Rightarrow> x)])"
proof (intro conjI impI)
  show "take 3 (err_lines (snd (main w url m))) =
      [''Fetching video info...'', ''Title: Unknown Title'', ''Extracting subtitles...'']"
    using assms
    by (simp add: main_def get_video_info_def extract_subtitles_def summarize_with_claude_def
        print_err_def print_out_def Let_def split: sum.splits list.splits)
next
  assume "download w url = Inr (raw # rest) \<and> 50 \<le> length (clean_vtt raw)"
  then have d: "download w url = Inr (raw # rest)" and ge: "50 \<le> length (clean_vtt raw)"
    by simp_all
  show "commands (snd (main w url m)) =
      [claude_argv ''Unknown Title'' (take 100000 (clean_vtt raw))
         (case m of None \<Rightarrow> DEFAULT_MODEL | Some x \<Rightarrow> x)]"
    using assms(2)
    by (simp add: main_reaches_summarizer [OF assms(1) d ge] summarize_with_claude_def
        print_err_def print_out_def Let_def)
qed

theorem missing_title_falls_back_witness:
  "take 3 (err_lines (snd (main (demo_world Map.empty text50 answered) ''u'' None))) =
     [''Fetching video info...'', ''Title: Unknown Title'', ''Extracting subtitles...'']
   \<and> commands (snd (main (demo_world Map.empty text50 answered) ''u'' None)) =
       [claude_argv ''Unknown Title'' text50 DEFAULT_MODEL]"
proof -
  have w: "extract_info (demo_world Map.empty text50 answered) ''u'' = Inr Map.empty"
    "download (demo_world Map.empty text50 answered) ''u'' = Inr [text50]"
    by (simp_all add: demo_world_def)
  have l: "50 \<le> length (clean_vtt text50)" "take 100000 (clean_vtt text50) = text50"
    by (simp_all add: clean_text50) (simp_all add: text50_def)
  from missing_title_falls_back [OF w(1), of None text50 "[]"] w(2) l
  show ?thesis by simp
qed

end
